theory Spec2Isabelle
  imports Main "HOL-Library.Word"
begin

section \<open>Texts, values and dictionaries of the Python program\<close>

text \<open>
  A Python \<open>str\<close> is a sequence of Unicode code points; \<open>len\<close>, slicing, \<open>strip\<close>,
  \<open>startswith\<close> and \<open>endswith\<close> all count code points. A text is therefore a list of
  code points, and \<open>str\<close> reads a literal.
\<close>

type_synonym pystr = "nat list"

definition str :: "string \<Rightarrow> pystr" where
  "str s = map of_char s"

text \<open>
  The values the program stores in its session state: what the model endpoint returns
  (\<open>str\<close> or \<open>None\<close>) and what \<open>json.loads\<close> builds. A float is identified by the
  numeral it was read from; its rounding to a double is not modelled.
\<close>

datatype pyval =
    PNone
  | PBool bool
  | PInt int
  | PFloat pystr
  | PStr pystr
  | PList "pyval list"
  | PDict "(pystr \<times> pyval) list"

text \<open>
  A \<open>dict\<close> keeps its keys in insertion order: it is an association list, and
  \<open>d[k] = v\<close> overwrites the value of a key that is present, in place, and appends a
  new key at the end.
\<close>

type_synonym 'v pydict = "(pystr \<times> 'v) list"

fun dict_set :: "pystr \<Rightarrow> 'v \<Rightarrow> 'v pydict \<Rightarrow> 'v pydict" where
  "dict_set k v [] = [(k, v)]"
| "dict_set k v ((k', v') # d) =
     (if k' = k then (k', v) # d else (k', v') # dict_set k v d)"

definition dict_get :: "'v pydict \<Rightarrow> pystr \<Rightarrow> 'v option" where
  "dict_get d k = map_of d k"

definition keys :: "'v pydict \<Rightarrow> pystr list" where
  "keys d = map fst d"

text \<open>The exceptions (subclasses of \<open>Exception\<close>) that the modelled code can meet.\<close>

datatype exn =
    JSONDecodeError
  | RecursionError
  | IndexError
  | ImportError
  | KeyError pystr
  | RemoteError pystr

subsection \<open>String methods\<close>

text \<open>\<open>str.isspace\<close> on one code point: the Unicode white space characters.\<close>

definition isspace :: "nat \<Rightarrow> bool" where
  "isspace c \<longleftrightarrow>
     (9 \<le> c \<and> c \<le> 13) \<or> (28 \<le> c \<and> c \<le> 32) \<or> c = 133 \<or> c = 160 \<or> c = 5760 \<or>
     (8192 \<le> c \<and> c \<le> 8202) \<or> c = 8232 \<or> c = 8233 \<or> c = 8239 \<or> c = 8287 \<or>
     c = 12288"

definition strip :: "pystr \<Rightarrow> pystr" where
  "strip s = rev (dropWhile isspace (rev (dropWhile isspace s)))"

definition startswith :: "pystr \<Rightarrow> pystr \<Rightarrow> bool" where
  "startswith s p \<longleftrightarrow> take (length p) s = p"

definition endswith :: "pystr \<Rightarrow> pystr \<Rightarrow> bool" where
  "endswith s p \<longleftrightarrow> length p \<le> length s \<and> drop (length s - length p) s = p"

section \<open>The decoder \<open>json.loads\<close>\<close>

text \<open>
  A model of the standard library's decoder in its default configuration, on a \<open>str\<close>:
  the grammar of \<open>json.decoder\<close> and \<open>json.scanner\<close>, with \<open>NaN\<close>, \<open>Infinity\<close> and
  \<open>-Infinity\<close> accepted and control characters refused inside strings. Every defect
  of the text raises \<open>JSONDecodeError\<close>; its message and position are not modelled,
  nor is the interpreter's recursion limit.
\<close>

definition json_ws :: "nat \<Rightarrow> bool" where
  "json_ws c \<longleftrightarrow> c = 32 \<or> c = 9 \<or> c = 10 \<or> c = 13"

definition skip_ws :: "pystr \<Rightarrow> pystr" where
  "skip_ws s = dropWhile json_ws s"

definition isdigit :: "nat \<Rightarrow> bool" where
  "isdigit c \<longleftrightarrow> 48 \<le> c \<and> c \<le> 57"

definition hexval :: "nat \<Rightarrow> nat option" where
  "hexval c =
     (if 48 \<le> c \<and> c \<le> 57 then Some (c - 48)
      else if 97 \<le> c \<and> c \<le> 102 then Some (c - 87)
      else if 65 \<le> c \<and> c \<le> 70 then Some (c - 55)
      else None)"

text \<open>The four hexadecimal digits of a \<open>\uXXXX\<close> escape.\<close>

fun hex4 :: "pystr \<Rightarrow> nat option" where
  "hex4 (a # b # c # d # r) =
     (case (hexval a, hexval b, hexval c, hexval d) of
        (Some x, Some y, Some z, Some u) \<Rightarrow> Some (((x * 16 + y) * 16 + z) * 16 + u)
      | _ \<Rightarrow> None)"
| "hex4 _ = None"

definition backslash :: "nat \<Rightarrow> nat option" where
  "backslash e =
     (if e = 34 then Some 34 else if e = 92 then Some 92 else if e = 47 then Some 47
      else if e = 98 then Some 8 else if e = 102 then Some 12 else if e = 110 then Some 10
      else if e = 114 then Some 13 else if e = 116 then Some 9 else None)"

text \<open>
  \<open>scanstring\<close>, after the opening quote: the decoded text and what follows the closing
  quote. A high surrogate followed by an escaped low surrogate is one code point.
\<close>

fun scanstring :: "pystr \<Rightarrow> pystr \<Rightarrow> exn + (pystr \<times> pystr)" where
  "scanstring [] acc = Inl JSONDecodeError"
| "scanstring (c # r) acc =
     (if c = 34 then Inr (acc, r)
      else if c = 92 then
        (case r of
           [] \<Rightarrow> Inl JSONDecodeError
         | e # r1 \<Rightarrow>
             if e = 117 then
               (case hex4 r1 of
                  None \<Rightarrow> Inl JSONDecodeError
                | Some u \<Rightarrow>
                    if 55296 \<le> u \<and> u \<le> 56319 \<and> take 2 (drop 4 r1) = [92, 117] then
                      (case hex4 (drop 6 r1) of
                         None \<Rightarrow> Inl JSONDecodeError
                       | Some u2 \<Rightarrow>
                           if 56320 \<le> u2 \<and> u2 \<le> 57343
                           then scanstring (drop 10 r1)
                                  (acc @ [65536 + (u - 55296) * 1024 + (u2 - 56320)])
                           else scanstring (drop 4 r1) (acc @ [u]))
                    else scanstring (drop 4 r1) (acc @ [u]))
             else
               (case backslash e of
                  None \<Rightarrow> Inl JSONDecodeError
                | Some x \<Rightarrow> scanstring r1 (acc @ [x])))
      else if c < 32 then Inl JSONDecodeError
      else scanstring r (acc @ [c]))"

text \<open>
  \<open>NUMBER_RE\<close>: an optional sign, \<open>0\<close> or a digit sequence without leading zero, an
  optional fraction and an optional exponent, each taken when it is there. Without
  fraction and exponent the numeral is an \<open>int\<close>.
\<close>

definition frac_lexeme :: "pystr \<Rightarrow> pystr" where
  "frac_lexeme s =
     (case s of
        [] \<Rightarrow> []
      | d # r \<Rightarrow> if d = 46 \<and> takeWhile isdigit r \<noteq> [] then d # takeWhile isdigit r else [])"

definition exp_lexeme :: "pystr \<Rightarrow> pystr" where
  "exp_lexeme s =
     (case s of
        [] \<Rightarrow> []
      | e # r \<Rightarrow>
          if e = 101 \<or> e = 69 then
            (let sg = (case r of [] \<Rightarrow> [] | x # _ \<Rightarrow> if x = 43 \<or> x = 45 then [x] else []);
                 ds = takeWhile isdigit (drop (length sg) r)
             in if ds = [] then [] else e # sg @ ds)
          else [])"

definition digits_value :: "pystr \<Rightarrow> nat" where
  "digits_value ds = foldl (\<lambda>a c. a * 10 + (c - 48)) 0 ds"

definition match_number :: "pystr \<Rightarrow> (pyval \<times> pystr) option" where
  "match_number s =
     (let sign = (if take 1 s = [45] then [45] else []);
          s1 = drop (length sign) s
      in case s1 of
           [] \<Rightarrow> None
         | c # r \<Rightarrow>
             if \<not> isdigit c then None
             else
               (let ds = (if c = 48 then [c] else c # takeWhile isdigit r);
                    r1 = drop (length ds) s1;
                    frac = frac_lexeme r1;
                    r2 = drop (length frac) r1;
                    ex = exp_lexeme r2;
                    r3 = drop (length ex) r2
                in if frac = [] \<and> ex = []
                   then Some (PInt (if sign = [] then int (digits_value ds)
                                    else - int (digits_value ds)), r3)
                   else Some (PFloat (sign @ ds @ frac @ ex), r3)))"

text \<open>\<open>dict(pairs)\<close>: a later pair of the same key overwrites the value.\<close>

definition dict_of_pairs :: "(pystr \<times> 'v) list \<Rightarrow> 'v pydict" where
  "dict_of_pairs pairs = foldl (\<lambda>d kv. dict_set (fst kv) (snd kv) d) [] pairs"

text \<open>
  \<open>scan_once\<close>, \<open>JSONArray\<close> and \<open>JSONObject\<close>. The first argument bounds the number of
  nested calls; \<open>json_loads\<close> starts with a bound that no text exhausts (lemma
  \<open>json_loads_bound\<close> below).
  \<open>parse_array\<close> starts at an element, \<open>parse_object\<close> at the quote of a key.
\<close>

fun scan_once :: "nat \<Rightarrow> pystr \<Rightarrow> exn + (pyval \<times> pystr)"
  and parse_array :: "nat \<Rightarrow> pyval list \<Rightarrow> pystr \<Rightarrow> exn + (pyval \<times> pystr)"
  and parse_object :: "nat \<Rightarrow> (pystr \<times> pyval) list \<Rightarrow> pystr \<Rightarrow> exn + (pyval \<times> pystr)"
where
  "scan_once 0 s = Inl RecursionError"
| "scan_once (Suc n) s =
     (case s of
        [] \<Rightarrow> Inl JSONDecodeError
      | c # r \<Rightarrow>
          if c = 34 then
            (case scanstring r [] of
               Inl e \<Rightarrow> Inl e
             | Inr (t, r1) \<Rightarrow> Inr (PStr t, r1))
          else if c = 123 then
            (if take 1 (skip_ws r) = [125] then Inr (PDict [], drop 1 (skip_ws r))
             else parse_object n [] (skip_ws r))
          else if c = 91 then
            (if take 1 (skip_ws r) = [93] then Inr (PList [], drop 1 (skip_ws r))
             else parse_array n [] (skip_ws r))
          else if startswith s (str ''null'') then Inr (PNone, drop 4 s)
          else if startswith s (str ''true'') then Inr (PBool True, drop 4 s)
          else if startswith s (str ''false'') then Inr (PBool False, drop 5 s)
          else
            (case match_number s of
               Some res \<Rightarrow> Inr res
             | None \<Rightarrow>
                 if startswith s (str ''NaN'') then Inr (PFloat (str ''NaN''), drop 3 s)
                 else if startswith s (str ''Infinity'')
                 then Inr (PFloat (str ''Infinity''), drop 8 s)
                 else if startswith s (str ''-Infinity'')
                 then Inr (PFloat (str ''-Infinity''), drop 9 s)
                 else Inl JSONDecodeError))"
| "parse_array 0 acc s = Inl RecursionError"
| "parse_array (Suc n) acc s =
     (case scan_once n s of
        Inl e \<Rightarrow> Inl e
      | Inr (v, r) \<Rightarrow>
          (case skip_ws r of
             [] \<Rightarrow> Inl JSONDecodeError
           | c # r1 \<Rightarrow>
               if c = 93 then Inr (PList (acc @ [v]), r1)
               else if c = 44 then parse_array n (acc @ [v]) (skip_ws r1)
               else Inl JSONDecodeError))"
| "parse_object 0 acc s = Inl RecursionError"
| "parse_object (Suc n) acc s =
     (case s of
        [] \<Rightarrow> Inl JSONDecodeError
      | q # r \<Rightarrow>
          if q \<noteq> 34 then Inl JSONDecodeError
          else
            (case scanstring r [] of
               Inl e \<Rightarrow> Inl e
             | Inr (key, r1) \<Rightarrow>
                 (case skip_ws r1 of
                    [] \<Rightarrow> Inl JSONDecodeError
                  | c # r2 \<Rightarrow>
                      if c \<noteq> 58 then Inl JSONDecodeError
                      else
                        (case scan_once n (skip_ws r2) of
                           Inl e \<Rightarrow> Inl e
                         | Inr (v, r3) \<Rightarrow>
                             (case skip_ws r3 of
                                [] \<Rightarrow> Inl JSONDecodeError
                              | d # r4 \<Rightarrow>
                                  if d = 125
                                  then Inr (PDict (dict_of_pairs (acc @ [(key, v)])), r4)
                                  else if d = 44
                                  then parse_object n (acc @ [(key, v)]) (skip_ws r4)
                                  else Inl JSONDecodeError)))))"

text \<open>
  \<open>JSONDecoder.decode\<close>: white space, one value, white space, and nothing else.
\<close>

definition json_loads :: "pystr \<Rightarrow> exn + pyval" where
  "json_loads s =
     (case scan_once (2 * length s + 2) (skip_ws s) of
        Inl e \<Rightarrow> Inl e
      | Inr (v, r) \<Rightarrow> if skip_ws r = [] then Inr v else Inl JSONDecodeError)"

section \<open>The session state and the messages shown to the user\<close>

text \<open>
  \<open>st.session_state\<close> of \<open>app.py\<close> (the PDF page names the first three fields
  \<open>uploaded_pdf_bytes\<close>, \<open>uploaded_pdf_name\<close>, \<open>uploaded_pdf_path\<close>).
\<close>

record session_state =
  uploaded_image_bytes :: "8 word list option"
  uploaded_image_name :: "pystr option"
  uploaded_image_path :: "pystr option"
  prompt_results :: "pyval pydict"
  final_json :: pyval

text \<open>
  The calls \<open>st.write\<close>, \<open>st.success\<close>, \<open>st.error\<close>, \<open>st.warning\<close> and \<open>st.json\<close> made by
  the handlers, in order; a message carries the values formatted into its text.
\<close>

datatype ui_msg =
    StWrite pystr
  | StSuccess
  | StError exn
  | StWarning pystr exn
  | StJson pyval

section \<open>Step 3: Combine All JSONs\<close>

text \<open>
  \<open>json.loads\<close> is the standard library's decoder: the handlers take it as the
  parameter \<open>loads\<close>, which returns the decoded value or the exception raised.
\<close>

type_synonym decoder = "pystr \<Rightarrow> exn + pyval"

text \<open>\<open>app.py\<close>, lines 138 to 145: the text handed to the decoder.\<close>

definition cleaned :: "pystr \<Rightarrow> pystr" where
  "cleaned result =
     (let c0 = strip result;
          c1 = (if startswith c0 (str ''```json'') then drop 7 c0 else c0);
          c2 = (if startswith c1 (str ''```'') then drop 3 c1 else c1);
          c3 = (if endswith c2 (str ''```'') then take (length c2 - 3) c2 else c2)
      in strip c3)"

text \<open>\<open>app.py\<close>, lines 136 to 149: the body of the \<open>try\<close>, whose value is \<open>parsed\<close>.\<close>

definition parsed :: "decoder \<Rightarrow> pyval \<Rightarrow> exn + pyval" where
  "parsed loads result =
     (case result of PStr s \<Rightarrow> loads (cleaned s) | _ \<Rightarrow> Inr result)"

text \<open>
  \<open>app.py\<close>, lines 134 to 154: one turn of the loop gives the value stored under the
  name and the warning shown when the \<open>except\<close> clause ran.
\<close>

definition combine_entry :: "decoder \<Rightarrow> pystr \<Rightarrow> pyval \<Rightarrow> pyval \<times> ui_msg list" where
  "combine_entry loads name result =
     (case parsed loads result of
        Inr p \<Rightarrow> (p, [])
      | Inl e \<Rightarrow> (result, [StWarning name e]))"

fun combine_loop ::
  "decoder \<Rightarrow> pyval pydict \<Rightarrow> pyval pydict \<Rightarrow> ui_msg list \<Rightarrow> pyval pydict \<times> ui_msg list"
where
  "combine_loop loads [] combined ui = (combined, ui)"
| "combine_loop loads ((name, result) # rest) combined ui =
     (case combine_entry loads name result of
        (v, msgs) \<Rightarrow> combine_loop loads rest (dict_set name v combined) (ui @ msgs))"

text \<open>\<open>app.py\<close>, lines 131 to 158.\<close>

definition combine_all_jsons :: "decoder \<Rightarrow> session_state \<Rightarrow> session_state \<times> ui_msg list" where
  "combine_all_jsons loads st =
     (case combine_loop loads (prompt_results st) [] [] of
        (combined, ui) \<Rightarrow>
          (st\<lparr>final_json := PDict combined\<rparr>, ui @ [StSuccess, StJson (PDict combined)]))"

text \<open>
  \<open>views/pdf_field_extractor.py\<close>, lines 120 to 136: the same handler of the PDF page.
  It hands the result to the decoder as it is, and its bare \<open>except\<close> shows no warning.
\<close>

definition pdf_parsed :: "decoder \<Rightarrow> pyval \<Rightarrow> exn + pyval" where
  "pdf_parsed loads result =
     (case result of PStr s \<Rightarrow> loads s | _ \<Rightarrow> Inr result)"

definition pdf_combine_entry :: "decoder \<Rightarrow> pyval \<Rightarrow> pyval" where
  "pdf_combine_entry loads result =
     (case pdf_parsed loads result of Inr p \<Rightarrow> p | Inl e \<Rightarrow> result)"

fun pdf_combine_loop :: "decoder \<Rightarrow> pyval pydict \<Rightarrow> pyval pydict \<Rightarrow> pyval pydict" where
  "pdf_combine_loop loads [] combined = combined"
| "pdf_combine_loop loads ((name, result) # rest) combined =
     pdf_combine_loop loads rest (dict_set name (pdf_combine_entry loads result) combined)"

definition pdf_combine_all_jsons ::
  "decoder \<Rightarrow> session_state \<Rightarrow> session_state \<times> ui_msg list"
where
  "pdf_combine_all_jsons loads st =
     (let combined = pdf_combine_loop loads (prompt_results st) []
      in (st\<lparr>final_json := PDict combined\<rparr>, [StSuccess, StJson (PDict combined)]))"

section \<open>Step 2: the model endpoint and Invoke All Prompts\<close>

text \<open>\<open>base64.b64encode(image_bytes).decode('utf-8')\<close>: the standard alphabet, padded.\<close>

definition b64char :: "nat \<Rightarrow> nat" where
  "b64char i =
     (if i < 26 then 65 + i
      else if i < 52 then 97 + (i - 26)
      else if i < 62 then 48 + (i - 52)
      else if i = 62 then 43 else 47)"

fun b64encode :: "nat list \<Rightarrow> pystr" where
  "b64encode (a # b # c # r) =
     [b64char (a div 4), b64char ((a mod 4) * 16 + b div 16),
      b64char ((b mod 16) * 4 + c div 64), b64char (c mod 64)] @ b64encode r"
| "b64encode [a, b] =
     [b64char (a div 4), b64char ((a mod 4) * 16 + b div 16), b64char ((b mod 16) * 4), 61]"
| "b64encode [a] = [b64char (a div 4), b64char ((a mod 4) * 16), 61, 61]"
| "b64encode [] = []"

definition image_to_base64 :: "8 word list \<Rightarrow> pystr" where
  "image_to_base64 image_bytes = b64encode (map unat image_bytes)"

definition pdf_to_base64 :: "8 word list \<Rightarrow> pystr" where
  "pdf_to_base64 pdf_bytes = b64encode (map unat pdf_bytes)"

text \<open>
  The serving endpoint is outside the program. \<open>w.serving_endpoints.get_open_ai_client()\<close>
  and \<open>client.chat.completions.create\<close> are parameters: each reads and changes the world
  \<open>'w\<close> (the network, the endpoint) and returns its value or the exception it raised. A
  response is the list of the \<open>message.content\<close> of its choices.
\<close>

record chat_request =
  model :: pystr
  prompt_text :: pystr
  image_url :: pystr
  max_tokens :: nat
  temperature :: "nat option"

type_synonym 'w open_ai_client = "chat_request \<Rightarrow> 'w \<Rightarrow> (exn + pyval list) \<times> 'w"

type_synonym 'w serving_endpoints = "'w \<Rightarrow> (exn + 'w open_ai_client) \<times> 'w"

text \<open>\<open>response.choices[0].message.content\<close>: indexing an empty list raises.\<close>

definition first_content :: "pyval list \<Rightarrow> exn + pyval" where
  "first_content choices = (case choices of [] \<Rightarrow> Inl IndexError | c # _ \<Rightarrow> Inr c)"

text \<open>\<open>app.py\<close>, lines 36 to 58: the body of the \<open>try\<close> of \<open>extract_with_llm\<close>.\<close>

definition llm_request :: "pystr \<Rightarrow> pystr \<Rightarrow> chat_request" where
  "llm_request image_base64 prompt =
     \<lparr>model = str ''databricks-llama-4-maverick'', prompt_text = prompt,
      image_url = str ''data:image/jpeg;base64,'' @ image_base64,
      max_tokens = 5000, temperature = Some 0\<rparr>"

definition llm_call ::
  "'w serving_endpoints \<Rightarrow> chat_request \<Rightarrow> 'w \<Rightarrow> (exn + pyval) \<times> 'w"
where
  "llm_call get_open_ai_client request w =
     (case get_open_ai_client w of
        (Inl e, w1) \<Rightarrow> (Inl e, w1)
      | (Inr client, w1) \<Rightarrow>
          (case client request w1 of
             (Inl e, w2) \<Rightarrow> (Inl e, w2)
           | (Inr choices, w2) \<Rightarrow> (first_content choices, w2)))"

text \<open>
  \<open>app.py\<close>, lines 32 to 61: \<open>except Exception\<close> shows the error and returns \<open>None\<close>.
\<close>

definition extract_with_llm ::
  "'w serving_endpoints \<Rightarrow> pystr \<Rightarrow> pystr \<Rightarrow> 'w \<Rightarrow> (pyval \<times> ui_msg list) \<times> 'w"
where
  "extract_with_llm get_open_ai_client image_base64 prompt w =
     (case llm_call get_open_ai_client (llm_request image_base64 prompt) w of
        (Inr content, w') \<Rightarrow> ((content, []), w')
      | (Inl e, w') \<Rightarrow> ((PNone, [StError e]), w'))"

text \<open>
  \<open>views/pdf_field_extractor.py\<close>, lines 30 to 60: the same call with the PDF media
  type, 1000 tokens and no temperature. Its \<open>try\<close> starts with an import from
  \<open>databricks.sdk.service.serving\<close>, the parameter \<open>import_serving\<close>, which may raise.
\<close>

type_synonym 'w module_import = "'w \<Rightarrow> (exn + unit) \<times> 'w"

definition pdf_llm_request :: "pystr \<Rightarrow> pystr \<Rightarrow> chat_request" where
  "pdf_llm_request pdf_base64 prompt =
     \<lparr>model = str ''databricks-llama-4-maverick'', prompt_text = prompt,
      image_url = str ''data:application/pdf;base64,'' @ pdf_base64,
      max_tokens = 1000, temperature = None\<rparr>"

definition pdf_llm_call ::
  "'w module_import \<Rightarrow> 'w serving_endpoints \<Rightarrow> chat_request \<Rightarrow> 'w \<Rightarrow> (exn + pyval) \<times> 'w"
where
  "pdf_llm_call import_serving get_open_ai_client request w =
     (case import_serving w of
        (Inl e, w0) \<Rightarrow> (Inl e, w0)
      | (Inr _, w0) \<Rightarrow> llm_call get_open_ai_client request w0)"

definition pdf_extract_with_llm ::
  "'w module_import \<Rightarrow> 'w serving_endpoints \<Rightarrow> pystr \<Rightarrow> pystr \<Rightarrow> 'w \<Rightarrow>
   (pyval \<times> ui_msg list) \<times> 'w"
where
  "pdf_extract_with_llm import_serving get_open_ai_client pdf_base64 prompt w =
     (case pdf_llm_call import_serving get_open_ai_client
             (pdf_llm_request pdf_base64 prompt) w of
        (Inr content, w') \<Rightarrow> ((content, []), w')
      | (Inl e, w') \<Rightarrow> ((PNone, [StError e]), w'))"

text \<open>The prompts of the two pages (\<open>app.py\<close>, lines 95 to 99, and the PDF page, 89 to 92).\<close>

definition prompts :: "pystr pydict" where
  "prompts =
     [(str ''total_number_of_holes'',
       str ''can you extract total number of holes? output a json''),
      (str ''dowel_holds'',
       str ''can you extract dowel holds table on the right upper coner? Note that there might be merged rows for some columns. output a json only.''),
      (str ''drill_dimensions'',
       str ''can you extract dimension info on top of section C-C section? output a json'')]"

definition pdf_prompts :: "pystr pydict" where
  "pdf_prompts =
     [(str ''Prompt 1'', str ''Can you extract total number of holes? output a json''),
      (str ''Prompt 2'',
       str ''Can you extract dimension info on top of section C-C section? output a json'')]"

text \<open>
  \<open>app.py\<close>, lines 110 to 113, and the PDF page, lines 103 to 106: the loop over
  \<open>prompts.items()\<close>, the same on both pages but for the function it calls.
\<close>

fun prompts_loop ::
  "(pystr \<Rightarrow> pystr \<Rightarrow> 'w \<Rightarrow> (pyval \<times> ui_msg list) \<times> 'w) \<Rightarrow> pystr \<Rightarrow> pystr pydict \<Rightarrow>
   pyval pydict \<Rightarrow> ui_msg list \<Rightarrow> 'w \<Rightarrow> pyval pydict \<times> ui_msg list \<times> 'w"
where
  "prompts_loop extract b64 [] results ui w = (results, ui, w)"
| "prompts_loop extract b64 ((name, prompt) # rest) results ui w =
     (case extract b64 prompt w of
        ((response, msgs), w') \<Rightarrow>
          prompts_loop extract b64 rest (dict_set name response results)
            (ui @ StWrite name # msgs) w')"

text \<open>
  \<open>app.py\<close>, lines 105 to 115. The handler runs where a file is loaded; \<open>image_bytes\<close>
  are the bytes of \<open>uploaded_image_bytes\<close>, and \<open>ps\<close> is the dictionary \<open>prompts\<close>.
\<close>

definition invoke_all_prompts ::
  "'w serving_endpoints \<Rightarrow> pystr pydict \<Rightarrow> 8 word list \<Rightarrow> session_state \<Rightarrow> 'w \<Rightarrow>
   session_state \<times> ui_msg list \<times> 'w"
where
  "invoke_all_prompts get_open_ai_client ps image_bytes st w =
     (let image_b64 = image_to_base64 image_bytes;
          st0 = st\<lparr>prompt_results := []\<rparr>
      in case prompts_loop (extract_with_llm get_open_ai_client) image_b64 ps
                (prompt_results st0) [] w of
           (results, ui, w') \<Rightarrow> (st0\<lparr>prompt_results := results\<rparr>, ui @ [StSuccess], w'))"

text \<open>\<open>views/pdf_field_extractor.py\<close>, lines 98 to 108.\<close>

definition pdf_invoke_all_prompts ::
  "'w module_import \<Rightarrow> 'w serving_endpoints \<Rightarrow> pystr pydict \<Rightarrow> 8 word list \<Rightarrow>
   session_state \<Rightarrow> 'w \<Rightarrow> session_state \<times> ui_msg list \<times> 'w"
where
  "pdf_invoke_all_prompts import_serving get_open_ai_client ps pdf_bytes st w =
     (let pdf_b64 = pdf_to_base64 pdf_bytes;
          st0 = st\<lparr>prompt_results := []\<rparr>
      in case prompts_loop (pdf_extract_with_llm import_serving get_open_ai_client) pdf_b64 ps
                (prompt_results st0) [] w of
           (results, ui, w') \<Rightarrow> (st0\<lparr>prompt_results := results\<rparr>, ui @ [StSuccess], w'))"

section \<open>Step 4: Validate and Update\<close>

text \<open>
  \<open>app.py\<close>, lines 171 to 176, and the PDF page, lines 149 to 154, which are the same
  code. The assignment happens only when \<open>json.loads\<close> has returned.
\<close>

definition validate_and_update ::
  "decoder \<Rightarrow> pystr \<Rightarrow> session_state \<Rightarrow> session_state \<times> ui_msg list"
where
  "validate_and_update loads edited_json st =
     (case loads edited_json of
        Inr v \<Rightarrow> (st\<lparr>final_json := v\<rparr>, [StSuccess])
      | Inl e \<Rightarrow> (st, [StError e]))"

section \<open>The database page: connections with a rotating token\<close>

text \<open>
  \<open>uuid.uuid4\<close>, the workspace's \<open>generate_database_credential\<close> (its value is the
  \<open>token\<close> of the credential) and \<open>psycopg.Connection.connect\<close> are parameters over the
  world \<open>'w\<close>.
\<close>

type_synonym 'w uuid_source = "'w \<Rightarrow> pystr \<times> 'w"

type_synonym 'w credential_service = "pystr \<Rightarrow> pystr list \<Rightarrow> 'w \<Rightarrow> (exn + pystr) \<times> 'w"

type_synonym ('w, 'c) psycopg_connect = "pystr \<Rightarrow> pystr pydict \<Rightarrow> 'w \<Rightarrow> (exn + 'c) \<times> 'w"

text \<open>\<open>views/oltp_database_connect.py\<close>, lines 26 to 30.\<close>

definition generate_token ::
  "'w uuid_source \<Rightarrow> 'w credential_service \<Rightarrow> pystr \<Rightarrow> 'w \<Rightarrow> (exn + pystr) \<times> 'w"
where
  "generate_token uuid4 generate_database_credential instance_name w =
     (case uuid4 w of
        (request_id, w1) \<Rightarrow> generate_database_credential request_id [instance_name] w1)"

text \<open>\<open>dict.pop(k)\<close> raises on a missing key; \<open>dict.setdefault\<close> keeps a present one.\<close>

definition dict_pop :: "pystr \<Rightarrow> 'v pydict \<Rightarrow> exn + ('v \<times> 'v pydict)" where
  "dict_pop k d =
     (case map_of d k of
        None \<Rightarrow> Inl (KeyError k)
      | Some v \<Rightarrow> Inr (v, filter (\<lambda>kv. fst kv \<noteq> k) d))"

definition setdefault :: "pystr \<Rightarrow> 'v \<Rightarrow> 'v pydict \<Rightarrow> 'v pydict" where
  "setdefault k v d = (case map_of d k of None \<Rightarrow> d @ [(k, v)] | Some _ \<Rightarrow> d)"

text \<open>
  \<open>views/oltp_database_connect.py\<close>, lines 36 to 41: \<open>RotatingTokenConnection.connect\<close>.
  Neither \<open>pop\<close> nor \<open>generate_token\<close> is in a \<open>try\<close>: their exceptions leave \<open>connect\<close>.
\<close>

definition connect ::
  "'w uuid_source \<Rightarrow> 'w credential_service \<Rightarrow> ('w, 'c) psycopg_connect \<Rightarrow>
   pystr \<Rightarrow> pystr pydict \<Rightarrow> 'w \<Rightarrow> (exn + 'c) \<times> 'w"
where
  "connect uuid4 generate_database_credential super_connect conninfo kwargs w =
     (case dict_pop (str ''_instance_name'') kwargs of
        Inl e \<Rightarrow> (Inl e, w)
      | Inr (instance_name, kwargs1) \<Rightarrow>
          (case generate_token uuid4 generate_database_credential instance_name w of
             (Inl e, w1) \<Rightarrow> (Inl e, w1)
           | (Inr token, w1) \<Rightarrow>
               super_connect conninfo
                 (setdefault (str ''sslmode'') (str ''require'')
                    (dict_set (str ''password'') token kwargs1)) w1))"

text \<open>
  \<open>views/oltp_database_connect.py\<close>, lines 45 to 54: the arguments \<open>build_pool\<close> gives
  the pool. The pool opens each new connection with
  \<open>connection_class.connect(conninfo, **kwargs)\<close>.
\<close>

record pool =
  pool_conninfo :: pystr
  pool_kwargs :: "pystr pydict"
  min_size :: nat
  max_size :: nat

definition build_pool :: "pystr \<Rightarrow> pystr \<Rightarrow> pystr \<Rightarrow> pystr \<Rightarrow> pool" where
  "build_pool instance_name host user database =
     \<lparr>pool_conninfo =
        str ''host='' @ host @ str '' dbname='' @ database @ str '' user='' @ user,
      pool_kwargs = [(str ''_instance_name'', instance_name)],
      min_size = 1, max_size = 10\<rparr>"

definition pool_new_connection ::
  "'w uuid_source \<Rightarrow> 'w credential_service \<Rightarrow> ('w, 'c) psycopg_connect \<Rightarrow>
   pool \<Rightarrow> 'w \<Rightarrow> (exn + 'c) \<times> 'w"
where
  "pool_new_connection uuid4 generate_database_credential super_connect p w =
     connect uuid4 generate_database_credential super_connect
       (pool_conninfo p) (pool_kwargs p) w"

section \<open>Properties of the decoder\<close>

text \<open>Every successful scan consumes input, and the bound of \<open>json_loads\<close> is never reached.\<close>

lemma length_skip_ws: "length (skip_ws s) \<le> length s"
  by (simp add: skip_ws_def length_dropWhile_le)

lemma scanstring_shorter: "scanstring s acc = Inr (t, rest) \<Longrightarrow> length rest < length s"
proof (induction s acc rule: scanstring.induct)
  case (1 acc)
  then show ?case by simp
next
  case (2 c r acc)
  show ?case
  proof (cases "c = 34")
    case True
    with "2.prems" show ?thesis by auto
  next
    case c34: False
    show ?thesis
    proof (cases "c = 92")
      case False
      with c34 "2.prems" "2.IH"(5) show ?thesis
        by (auto split: if_splits)
    next
      case c92: True
      show ?thesis
      proof (cases r)
        case Nil
        with c92 c34 "2.prems" show ?thesis by simp
      next
        case (Cons e r1)
        show ?thesis
        proof (cases "e = 117")
          case False
          with Cons c92 c34 "2.prems" "2.IH"(4) show ?thesis
            by (fastforce split: option.splits)
        next
          case True
          with Cons c92 c34 "2.prems" "2.IH"(1,2,3) show ?thesis
            by (fastforce split: option.splits if_splits simp del: hex4.simps)
        qed
      qed
    qed
  qed
qed

lemma scanstring_error: "scanstring s acc \<noteq> Inl RecursionError"
  by (induction s acc rule: scanstring.induct)
     (auto split: list.splits option.splits simp del: hex4.simps)

lemma drop_Cons_length: "drop n s = c # r \<Longrightarrow> Suc (length r) \<le> length s"
  by (drule arg_cong [where f = length]) simp

lemma match_number_shorter:
  assumes "match_number s = Some (v, rest)"
  shows "length rest < length s"
proof -
  let ?sign = "if take 1 s = [45] then [45::nat] else []"
  let ?s1 = "drop (length ?sign) s"
  from assms obtain c r where s1: "?s1 = c # r"
    by (cases ?s1) (simp_all add: match_number_def Let_def)
  let ?ds = "if c = 48 then [c] else c # takeWhile isdigit r"
  from assms s1 have "length rest \<le> length (drop (length ?ds) (c # r))"
    by (auto simp: match_number_def Let_def split: if_splits)
  also have "\<dots> \<le> length r"
    by simp
  also have "\<dots> < length s"
    using drop_Cons_length [OF s1] by simp
  finally show ?thesis .
qed


lemma skip_ws_Cons_length: "skip_ws r = c # r1 \<Longrightarrow> length r1 < length r"
  using length_skip_ws [of r] by simp

lemma less_skip_ws: "length rest < length (skip_ws r) \<Longrightarrow> length rest < length r"
  using length_skip_ws [of r] by simp

lemma scan_once_shorter:
  "scan_once n s = Inr (v, rest) \<Longrightarrow> length rest < length s"
  "parse_array n acc s = Inr (v, rest) \<Longrightarrow> length rest < length s"
  "parse_object n pairs s = Inr (v, rest) \<Longrightarrow> length rest < length s"
proof (induction n s and n acc s and n pairs s arbitrary: v rest and v rest and v rest
    rule: scan_once_parse_array_parse_object.induct)
  case (1 s)
  then show ?case by simp
next
  case (2 n s)
  from "2.prems" obtain c r where s: "s = c # r"
    by (cases s) simp_all
  consider (str) "c = 34" | (obj) "c \<noteq> 34" "c = 123" | (arr) "c \<noteq> 34" "c \<noteq> 123" "c = 91"
    | (other) "c \<noteq> 34" "c \<noteq> 123" "c \<noteq> 91"
    by blast
  then show ?case
  proof cases
    case str
    with "2.prems" s show ?thesis
      by (auto split: sum.splits dest: scanstring_shorter)
  next
    case obj
    show ?thesis
    proof (cases "take 1 (skip_ws r) = [125]")
      case True
      with "2.prems" s obj have "rest = drop 1 (skip_ws r)" by simp
      then show ?thesis using s length_skip_ws [of r] by simp
    next
      case False
      with "2.prems" s obj have "parse_object n [] (skip_ws r) = Inr (v, rest)" by simp
      from "2.IH"(1) [OF s obj(1) obj(2) False this] show ?thesis
        using s length_skip_ws [of r] by simp
    qed
  next
    case arr
    show ?thesis
    proof (cases "take 1 (skip_ws r) = [93]")
      case True
      with "2.prems" s arr have "rest = drop 1 (skip_ws r)" by simp
      then show ?thesis using s length_skip_ws [of r] by simp
    next
      case False
      with "2.prems" s arr have "parse_array n [] (skip_ws r) = Inr (v, rest)" by simp
      from "2.IH"(2) [OF s arr(1) arr(2) arr(3) False this] show ?thesis
        using s length_skip_ws [of r] by simp
    qed
  next
    case other
    with "2.prems" s show ?thesis
      by (auto split: if_splits option.splits dest: match_number_shorter)
  qed
next
  case (3 acc s)
  then show ?case by simp
next
  case (4 n acc s)
  from "4.prems" obtain v1 r where so: "scan_once n s = Inr (v1, r)"
    by (auto split: sum.splits)
  from "4.IH"(1) [OF so] have l1: "length r < length s" .
  from "4.prems" so obtain c r1 where sk: "skip_ws r = c # r1"
    by (cases "skip_ws r") simp_all
  have l2: "length r1 < length r"
    using sk by (rule skip_ws_Cons_length)
  show ?case
  proof (cases "c = 93")
    case True
    with "4.prems" so sk have "rest = r1" by simp
    with l1 l2 show ?thesis by simp
  next
    case False
    with "4.prems" so sk have c44: "c = 44"
      and rec: "parse_array n (acc @ [v1]) (skip_ws r1) = Inr (v, rest)"
      by (auto split: if_splits)
    from "4.IH"(2) [OF so refl sk False c44 rec]
    have "length rest < length (skip_ws r1)" .
    with l1 l2 length_skip_ws [of r1] show ?thesis by simp
  qed
next
  case (5 pairs s)
  then show ?case by simp
next
  case (6 n pairs s)
  from "6.prems" obtain q r where s: "s = q # r"
    by (cases s) simp_all
  from "6.prems" s have q: "\<not> q \<noteq> 34"
    by (auto split: if_splits)
  from "6.prems" s q obtain key r1 where ss: "scanstring r [] = Inr (key, r1)"
    by (auto split: sum.splits)
  have l1: "length r1 < length r"
    using ss by (rule scanstring_shorter)
  from "6.prems" s q ss obtain c r2 where sk: "skip_ws r1 = c # r2"
    by (cases "skip_ws r1") simp_all
  have l2: "length r2 < length r1"
    using sk by (rule skip_ws_Cons_length)
  from "6.prems" s q ss sk have c: "\<not> c \<noteq> 58"
    by (auto split: if_splits)
  from "6.prems" s q ss sk c obtain v1 r3 where so: "scan_once n (skip_ws r2) = Inr (v1, r3)"
    by (auto split: sum.splits)
  from "6.IH"(1) [OF s q ss refl sk c so] have l3: "length r3 < length (skip_ws r2)" .
  from "6.prems" s q ss sk c so obtain d r4 where sk2: "skip_ws r3 = d # r4"
    by (cases "skip_ws r3") simp_all
  have l4: "length r4 < length r3"
    using sk2 by (rule skip_ws_Cons_length)
  show ?case
  proof (cases "d = 125")
    case True
    with "6.prems" s q ss sk c so sk2 have "rest = r4" by simp
    with l1 l2 l3 l4 s length_skip_ws [of r2] show ?thesis by simp
  next
    case False
    with "6.prems" s q ss sk c so sk2 have d44: "d = 44"
      and rec: "parse_object n (pairs @ [(key, v1)]) (skip_ws r4) = Inr (v, rest)"
      by (auto split: if_splits)
    from "6.IH"(2) [OF s q ss refl sk c so refl sk2 False d44 rec]
    have "length rest < length (skip_ws r4)" .
    with l1 l2 l3 l4 s length_skip_ws [of r2] length_skip_ws [of r4] show ?thesis by simp
  qed
qed


lemma scan_once_bound:
  "2 * length s + 1 \<le> n \<Longrightarrow> scan_once n s \<noteq> Inl RecursionError"
  "2 * length s + 2 \<le> n \<Longrightarrow> parse_array n acc s \<noteq> Inl RecursionError"
  "2 * length s + 2 \<le> n \<Longrightarrow> parse_object n pairs s \<noteq> Inl RecursionError"
proof (induction n s and n acc s and n pairs s
    rule: scan_once_parse_array_parse_object.induct)
  case (1 s)
  then show ?case by simp
next
  case (2 n s)
  show ?case
  proof (cases s)
    case Nil
    then show ?thesis by simp
  next
    case (Cons c r)
    consider (str) "c = 34" | (obj) "c \<noteq> 34" "c = 123"
      | (arr) "c \<noteq> 34" "c \<noteq> 123" "c = 91"
      | (other) "c \<noteq> 34" "c \<noteq> 123" "c \<noteq> 91"
      by blast
    then show ?thesis
    proof cases
      case str
      with Cons scanstring_error [of r "[]"] show ?thesis
        by (auto split: sum.splits)
    next
      case obj
      show ?thesis
      proof (cases "take 1 (skip_ws r) = [125]")
        case True
        with Cons obj show ?thesis by simp
      next
        case False
        have "2 * length (skip_ws r) + 2 \<le> n"
          using "2.prems" Cons length_skip_ws [of r] by simp
        from "2.IH"(1) [OF Cons obj(1) obj(2) False this] show ?thesis
          using Cons obj False by simp
      qed
    next
      case arr
      show ?thesis
      proof (cases "take 1 (skip_ws r) = [93]")
        case True
        with Cons arr show ?thesis by simp
      next
        case False
        have "2 * length (skip_ws r) + 2 \<le> n"
          using "2.prems" Cons length_skip_ws [of r] by simp
        from "2.IH"(2) [OF Cons arr(1) arr(2) arr(3) False this] show ?thesis
          using Cons arr False by simp
      qed
    next
      case other
      with Cons show ?thesis
        by (simp add: startswith_def split: option.splits)
    qed
  qed
next
  case (3 acc s)
  then show ?case by simp
next
  case (4 n acc s)
  have b1: "2 * length s + 1 \<le> n"
    using "4.prems" by simp
  from "4.IH"(1) [OF b1] have ne: "scan_once n s \<noteq> Inl RecursionError" .
  show ?case
  proof (cases "scan_once n s")
    case (Inl e)
    with ne show ?thesis by simp
  next
    case (Inr vr)
    obtain v1 r where vr: "vr = (v1, r)" by (cases vr)
    from Inr vr have so: "scan_once n s = Inr (v1, r)" by simp
    have l1: "length r < length s"
      using so by (rule scan_once_shorter(1))
    show ?thesis
    proof (cases "skip_ws r")
      case Nil
      with so show ?thesis by simp
    next
      case (Cons c r1)
      have l2: "length r1 < length r"
        using Cons by (rule skip_ws_Cons_length)
      show ?thesis
      proof (cases "c = 93")
        case True
        with so Cons show ?thesis by simp
      next
        case c93: False
        show ?thesis
        proof (cases "c = 44")
          case True
          have "2 * length (skip_ws r1) + 2 \<le> n"
            using "4.prems" l1 l2 length_skip_ws [of r1] by simp
          from "4.IH"(2) [OF so refl Cons c93 True this] show ?thesis
            using so Cons c93 True by simp
        next
          case False
          with so Cons c93 show ?thesis by simp
        qed
      qed
    qed
  qed
next
  case (5 pairs s)
  then show ?case by simp
next
  case (6 n pairs s)
  show ?case
  proof (cases s)
    case Nil
    then show ?thesis by simp
  next
    case (Cons q r)
    show ?thesis
    proof (cases "q \<noteq> 34")
      case True
      with Cons show ?thesis by simp
    next
      case q: False
      show ?thesis
      proof (cases "scanstring r []")
        case (Inl e)
        with Cons q scanstring_error [of r "[]"] show ?thesis by simp
      next
        case (Inr kr)
        obtain key r1 where kr: "kr = (key, r1)" by (cases kr)
        from Inr kr have ss: "scanstring r [] = Inr (key, r1)" by simp
        have l1: "length r1 < length r"
          using ss by (rule scanstring_shorter)
        show ?thesis
        proof (cases "skip_ws r1")
          case Nil
          with Cons q ss show ?thesis by simp
        next
          case sk: (Cons c r2)
          have l2: "length r2 < length r1"
            using sk by (rule skip_ws_Cons_length)
          show ?thesis
          proof (cases "c \<noteq> 58")
            case True
            with Cons q ss sk show ?thesis by simp
          next
            case c: False
            have b1: "2 * length (skip_ws r2) + 1 \<le> n"
              using "6.prems" Cons l1 l2 length_skip_ws [of r2] by simp
            from "6.IH"(1) [OF Cons q ss refl sk c b1]
            have ne: "scan_once n (skip_ws r2) \<noteq> Inl RecursionError" .
            show ?thesis
            proof (cases "scan_once n (skip_ws r2)")
              case (Inl e)
              with ne Cons q ss sk c show ?thesis by simp
            next
              case so': (Inr vr)
              obtain v1 r3 where vr: "vr = (v1, r3)" by (cases vr)
              from so' vr have so: "scan_once n (skip_ws r2) = Inr (v1, r3)" by simp
              have l3: "length r3 < length (skip_ws r2)"
                using so by (rule scan_once_shorter(1))
              show ?thesis
              proof (cases "skip_ws r3")
                case Nil
                with Cons q ss sk c so show ?thesis by simp
              next
                case sk2: (Cons d r4)
                have l4: "length r4 < length r3"
                  using sk2 by (rule skip_ws_Cons_length)
                show ?thesis
                proof (cases "d = 125")
                  case True
                  with Cons q ss sk c so sk2 show ?thesis by simp
                next
                  case d125: False
                  show ?thesis
                  proof (cases "d = 44")
                    case True
                    have "2 * length (skip_ws r4) + 2 \<le> n"
                      using "6.prems" Cons l1 l2 l3 l4 length_skip_ws [of r2]
                        length_skip_ws [of r4]
                      by simp
                    from "6.IH"(2) [OF Cons q ss refl sk c so refl sk2 d125 True this]
                    show ?thesis
                      using Cons q ss sk c so sk2 d125 True by simp
                  next
                    case False
                    with Cons q ss sk c so sk2 d125 show ?thesis by simp
                  qed
                qed
              qed
            qed
          qed
        qed
      qed
    qed
  qed
qed

lemma json_loads_bound: "json_loads s \<noteq> Inl RecursionError"
proof -
  have "2 * length (skip_ws s) + 1 \<le> 2 * length s + 2"
    using length_skip_ws [of s] by simp
  from scan_once_bound(1) [OF this] show ?thesis
    by (auto simp: json_loads_def split: sum.splits simp del: scan_once.simps)
qed

section \<open>Properties of the fence stripping\<close>

text \<open>
  On the image page, a body without surrounding white space that does not start with a
  backquote, wrapped in \<open>```json\<close> (or \<open>```\<close>, when it does not start with \<open>j\<close>) and
  \<open>```\<close> with any white space around the markers, is handed to the decoder as it is.
\<close>

lemma strip_padded:
  assumes "list_all isspace a" and "list_all isspace b"
    and "x \<noteq> []" and "\<not> isspace (hd x)" and "\<not> isspace (last x)"
  shows "strip (a @ x @ b) = x"
proof -
  obtain y ys where x: "x = y # ys"
    using assms(3) by (cases x) auto
  have 1: "dropWhile isspace (a @ x @ b) = x @ b"
    using assms(1,4) x by (simp add: dropWhile_append2 list_all_iff)
  obtain z zs where rx: "rev x = z # zs"
    using assms(3) by (cases "rev x") auto
  have "z = last x"
    using rx assms(3) by (metis last_rev list.sel(1) rev_rev_ident)
  then have nz: "\<not> isspace z"
    using assms(5) by simp
  have "dropWhile isspace (rev b @ rev x) = dropWhile isspace (rev x)"
    using assms(2) by (intro dropWhile_append2) (simp add: list_all_iff)
  also have "\<dots> = rev x"
    using nz by (simp add: rx)
  finally have 2: "dropWhile isspace (rev b @ rev x) = rev x" .
  show ?thesis
    by (simp add: strip_def 1 2)
qed

lemma not_isspace_backtick: "\<not> isspace 96"
  by (simp add: isspace_def)

lemma cleaned_fenced_json:
  assumes "list_all isspace ws0" and "list_all isspace ws1"
    and "list_all isspace ws2" and "list_all isspace ws3"
    and "body \<noteq> []" and "\<not> isspace (hd body)" and "\<not> isspace (last body)"
    and "hd body \<noteq> 96"
  shows "cleaned (ws0 @ str ''```json'' @ ws1 @ body @ ws2 @ str ''```'' @ ws3) = body"
proof -
  let ?inner = "ws1 @ body @ ws2 @ str ''```''"
  let ?c0 = "str ''```json'' @ ?inner"
  have c0: "strip (ws0 @ ?c0 @ ws3) = ?c0"
    by (rule strip_padded) (use assms(1,4) in \<open>simp_all add: str_def isspace_def\<close>)
  have sw: "startswith ?c0 (str ''```json'')"
    by (simp add: startswith_def str_def)
  have hd_inner: "hd ?inner \<noteq> 96"
  proof (cases ws1)
    case Nil
    with assms(5,8) show ?thesis by simp
  next
    case (Cons w ws)
    with assms(2) not_isspace_backtick show ?thesis by auto
  qed
  have inner_ne: "?inner \<noteq> []"
    using assms(5) by simp
  have nsw: "\<not> startswith ?inner (str ''```'')"
    using hd_inner inner_ne by (cases ?inner) (auto simp: startswith_def str_def)
  have ew: "endswith ?inner (str ''```'')"
    by (simp add: endswith_def str_def)
  have tk: "take (length ?inner - 3) ?inner = ws1 @ body @ ws2"
    by (simp add: str_def)
  have fin: "strip (ws1 @ body @ ws2) = body"
    using assms(2,3,5,6,7) by (rule strip_padded)
  have "cleaned (ws0 @ ?c0 @ ws3) = body"
    unfolding cleaned_def Let_def c0
    using sw nsw ew tk fin by (simp add: str_def)
  then show ?thesis by simp
qed


lemma cleaned_fenced_plain:
  assumes "list_all isspace ws0" and "list_all isspace ws1"
    and "list_all isspace ws2" and "list_all isspace ws3"
    and "body \<noteq> []" and "\<not> isspace (hd body)" and "\<not> isspace (last body)"
    and "hd body \<noteq> 96" and "hd body \<noteq> 106"
  shows "cleaned (ws0 @ str ''```'' @ ws1 @ body @ ws2 @ str ''```'' @ ws3) = body"
proof -
  let ?inner = "ws1 @ body @ ws2 @ str ''```''"
  let ?c0 = "str ''```'' @ ?inner"
  have c0: "strip (ws0 @ ?c0 @ ws3) = ?c0"
    by (rule strip_padded) (use assms(1,4) in \<open>simp_all add: str_def isspace_def\<close>)
  have hd_inner: "hd ?inner \<noteq> 96 \<and> hd ?inner \<noteq> 106"
  proof (cases ws1)
    case Nil
    with assms(5,8,9) show ?thesis by simp
  next
    case (Cons w ws)
    with assms(2) show ?thesis by (auto simp: isspace_def)
  qed
  have inner_ne: "?inner \<noteq> []"
    using assms(5) by simp
  have nsw7: "\<not> startswith ?c0 (str ''```json'')"
    using hd_inner inner_ne by (cases ?inner) (auto simp: startswith_def str_def)
  have sw: "startswith ?c0 (str ''```'')"
    by (simp add: startswith_def str_def)
  have dr: "drop 3 ?c0 = ?inner"
    by (simp add: str_def)
  have ew: "endswith ?inner (str ''```'')"
    by (simp add: endswith_def str_def)
  have tk: "take (length ?inner - 3) ?inner = ws1 @ body @ ws2"
    by (simp add: str_def)
  have fin: "strip (ws1 @ body @ ws2) = body"
    using assms(2,3,5,6,7) by (rule strip_padded)
  have "cleaned (ws0 @ ?c0 @ ws3) = body"
    by (simp only: cleaned_def Let_def c0 nsw7 sw dr ew tk fin if_True if_False)
  then show ?thesis by simp
qed

section \<open>Properties of dictionaries\<close>

lemma keys_Nil: "keys [] = []"
  by (simp add: keys_def)

lemma keys_Cons: "keys (kv # d) = fst kv # keys d"
  by (simp add: keys_def)

lemma keys_append: "keys (d @ d') = keys d @ keys d'"
  by (simp add: keys_def)

lemma keys_dict_set:
  "keys (dict_set k v d) = (if k \<in> set (keys d) then keys d else keys d @ [k])"
proof (induction d)
  case Nil
  show ?case by (simp add: keys_Nil keys_Cons)
next
  case (Cons kv d)
  obtain k' v' where kv: "kv = (k', v')" by (cases kv)
  show ?case using Cons.IH kv by (simp add: keys_Cons)
qed

lemma dict_set_fresh: "k \<notin> set (keys d) \<Longrightarrow> dict_set k v d = d @ [(k, v)]"
proof (induction d)
  case Nil
  show ?case by simp
next
  case (Cons kv d)
  obtain k' v' where kv: "kv = (k', v')" by (cases kv)
  show ?case using Cons kv by (auto simp: keys_Cons)
qed

lemma distinct_keys_dict_set: "distinct (keys d) \<Longrightarrow> distinct (keys (dict_set k v d))"
  by (simp add: keys_dict_set)

lemma set_keys_dict_set: "set (keys (dict_set k v d)) = insert k (set (keys d))"
  by (auto simp: keys_dict_set)

section \<open>Properties of Combine All JSONs\<close>

lemma combine_loop_distinct:
  "distinct (keys c @ keys b) \<Longrightarrow>
   fst (combine_loop loads b c ui) =
     c @ map (\<lambda>(name, result). (name, fst (combine_entry loads name result))) b"
proof (induction b arbitrary: c ui)
  case Nil
  then show ?case by simp
next
  case (Cons nr rest)
  obtain name result where nr: "nr = (name, result)" by (cases nr)
  obtain v msgs where ce: "combine_entry loads name result = (v, msgs)"
    by (cases "combine_entry loads name result")
  from Cons.prems nr have fresh: "name \<notin> set (keys c)"
    by (simp add: keys_Cons)
  have "distinct (keys (c @ [(name, v)]) @ keys rest)"
    using Cons.prems nr by (simp add: keys_Cons keys_Nil keys_append)
  from Cons.IH [OF this]
  show ?case using nr ce fresh by (simp add: dict_set_fresh)
qed

lemma pdf_combine_loop_distinct:
  "distinct (keys c @ keys b) \<Longrightarrow>
   pdf_combine_loop loads b c =
     c @ map (\<lambda>(name, result). (name, pdf_combine_entry loads result)) b"
proof (induction b arbitrary: c)
  case Nil
  then show ?case by simp
next
  case (Cons nr rest)
  obtain name result where nr: "nr = (name, result)" by (cases nr)
  from Cons.prems nr have fresh: "name \<notin> set (keys c)"
    by (simp add: keys_Cons)
  have "distinct (keys (c @ [(name, pdf_combine_entry loads result)]) @ keys rest)"
    using Cons.prems nr by (simp add: keys_Cons keys_Nil keys_append)
  from Cons.IH [OF this]
  show ?case using nr fresh by (simp add: dict_set_fresh)
qed

lemma final_json_combine:
  "distinct (keys (prompt_results st)) \<Longrightarrow>
   final_json (fst (combine_all_jsons loads st)) =
     PDict (map (\<lambda>(name, result). (name, fst (combine_entry loads name result)))
              (prompt_results st))"
  using combine_loop_distinct [of "[]" "prompt_results st" loads "[]"]
  by (cases "combine_loop loads (prompt_results st) [] []")
     (simp add: combine_all_jsons_def keys_Nil)

lemma final_json_pdf_combine:
  "distinct (keys (prompt_results st)) \<Longrightarrow>
   final_json (fst (pdf_combine_all_jsons loads st)) =
     PDict (map (\<lambda>(name, result). (name, pdf_combine_entry loads result))
              (prompt_results st))"
  using pdf_combine_loop_distinct [of "[]" "prompt_results st" loads]
  by (simp add: pdf_combine_all_jsons_def keys_Nil Let_def)

section \<open>Properties of Invoke All Prompts\<close>

lemma prompts_loop_keys:
  "set (keys (fst (prompts_loop ex b64 ps res ui w))) = set (keys res) \<union> set (keys ps)"
proof (induction ps arbitrary: res ui w)
  case Nil
  then show ?case by (simp add: keys_Nil)
next
  case (Cons np rest)
  obtain name prompt where np: "np = (name, prompt)" by (cases np)
  obtain response msgs w' where ex: "ex b64 prompt w = ((response, msgs), w')"
    by (metis prod.exhaust)
  show ?case using np ex Cons.IH [of "dict_set name response res" "ui @ StWrite name # msgs" w']
    by (simp add: set_keys_dict_set keys_Cons)
qed

lemma prompts_loop_distinct:
  "distinct (keys res) \<Longrightarrow> distinct (keys (fst (prompts_loop ex b64 ps res ui w)))"
proof (induction ps arbitrary: res ui w)
  case Nil
  then show ?case by simp
next
  case (Cons np rest)
  obtain name prompt where np: "np = (name, prompt)" by (cases np)
  obtain response msgs w' where ex: "ex b64 prompt w = ((response, msgs), w')"
    by (metis prod.exhaust)
  show ?case
    using np ex Cons.IH [of "dict_set name response res" "ui @ StWrite name # msgs" w']
      distinct_keys_dict_set [OF Cons.prems, of name response]
    by simp
qed

lemma prompt_results_invoke:
  "prompt_results (fst (invoke_all_prompts gc ps bs st w)) =
   fst (prompts_loop (extract_with_llm gc) (image_to_base64 bs) ps [] [] w)"
  by (simp add: invoke_all_prompts_def Let_def split: prod.splits)

lemma prompt_results_pdf_invoke:
  "prompt_results (fst (pdf_invoke_all_prompts imp gc ps bs st w)) =
   fst (prompts_loop (pdf_extract_with_llm imp gc) (pdf_to_base64 bs) ps [] [] w)"
  by (simp add: pdf_invoke_all_prompts_def Let_def split: prod.splits)

section \<open>Properties of the model endpoint\<close>

lemma llm_call_raises:
  "get_client w = (Inl e, w1) \<Longrightarrow> llm_call get_client request w = (Inl e, w1)"
  "get_client w = (Inr client, w1) \<Longrightarrow> client request w1 = (Inl e, w2) \<Longrightarrow>
     llm_call get_client request w = (Inl e, w2)"
  "get_client w = (Inr client, w1) \<Longrightarrow> client request w1 = (Inr [], w2) \<Longrightarrow>
     llm_call get_client request w = (Inl IndexError, w2)"
  by (simp_all add: llm_call_def first_content_def)

lemma llm_call_returns:
  "get_client w = (Inr client, w1) \<Longrightarrow> client request w1 = (Inr (c # cs), w2) \<Longrightarrow>
     llm_call get_client request w = (Inr c, w2)"
  by (simp add: llm_call_def first_content_def)

text \<open>
  Scenario C: the endpoint fails on the prompt \<open>dowel_holds\<close> only. The batch has the
  three names, \<open>None\<close> under \<open>dowel_holds\<close>, and nothing of the batch before.
\<close>

lemma invoke_all_prompts_scenario_C:
  "prompt_results (fst (invoke_all_prompts
      (\<lambda>w. (Inr (\<lambda>request w.
                   if prompt_text request = str ''can you extract dowel holds table on the right upper coner? Note that there might be merged rows for some columns. output a json only.''
                   then (Inl (RemoteError (str ''timeout'')), Suc w)
                   else (Inr [PStr (str ''{\"holes\": 4}'')], Suc w)), w))
      prompts [0x89, 0x50, 0x4E]
      \<lparr>uploaded_image_bytes = Some [0x89, 0x50, 0x4E], uploaded_image_name = Some (str ''d.png''),
       uploaded_image_path = None,
       prompt_results = [(str ''stale'', PStr (str ''old''))], final_json = PDict []\<rparr>
      (0::nat))) =
   [(str ''total_number_of_holes'', PStr (str ''{\"holes\": 4}'')),
    (str ''dowel_holds'', PNone),
    (str ''drill_dimensions'', PStr (str ''{\"holes\": 4}''))]"
  by (simp add: invoke_all_prompts_def prompts_def extract_with_llm_def llm_call_def
        llm_request_def first_content_def Let_def str_def)

lemma image_to_base64_example: "image_to_base64 [0x89, 0x50, 0x4E, 0x47] = str ''iVBORw==''"
  by (simp add: image_to_base64_def b64char_def str_def)

section \<open>Evaluations\<close>

lemma map_of_map_entry:
  "map_of (map (\<lambda>(k, v). (k, f k v)) d) k = map_option (f k) (map_of d k)"
  by (induction d) auto

lemma keys_map_entry: "keys (map (\<lambda>(k, v). (k, f k v)) d) = keys d"
  by (induction d) (auto simp: keys_def)

lemmas str_eval = str_def strip_def isspace_def startswith_def endswith_def cleaned_def Let_def

lemma cleaned_scenario_A:
  "cleaned (str ''```json\<newline>{\"holes\": 4}\<newline>```'') = str ''{\"holes\": 4}''"
  by (simp add: str_eval)

lemma loads_scenario_A:
  "json_loads (str ''{\"holes\": 4}'') = Inr (PDict [(str ''holes'', PInt 4)])"
  by code_simp

lemma loads_fenced:
  "json_loads (str ''```json\<newline>{\"holes\": 4}\<newline>```'') = Inl JSONDecodeError"
  by code_simp

lemma cleaned_scenario_B:
  "cleaned (str ''four holes, see drawing'') = str ''four holes, see drawing''"
  by (simp add: str_eval)

lemma loads_scenario_B: "json_loads (str ''four holes, see drawing'') = Inl JSONDecodeError"
  by code_simp

lemma cleaned_quoted_5: "cleaned (str ''\"5\"'') = str ''\"5\"''"
  by (simp add: str_eval)

lemma loads_quoted_5: "json_loads (str ''\"5\"'') = Inr (PStr (str ''5''))"
  by code_simp

lemma cleaned_5: "cleaned (str ''5'') = str ''5''"
  by (simp add: str_eval)

lemma loads_5: "json_loads (str ''5'') = Inr (PInt 5)"
  by code_simp

lemma loads_array: "json_loads (str ''[1, 2]'') = Inr (PList [PInt 1, PInt 2])"
  by code_simp

lemma loads_not_json: "json_loads (str ''{not json'') = Inl JSONDecodeError"
  by code_simp

text \<open>A bare number is accepted by Validate and Update as well: the edited text \<open>5\<close>.\<close>

lemma validate_and_update_scalar_example:
  "final_json (fst (validate_and_update json_loads (str ''5'') st)) = PInt 5"
  by (simp add: validate_and_update_def loads_5)

text \<open>
  Claim C3. Whatever the endpoint does at each call, Invoke All Prompts leaves in
  \<open>prompt_results\<close> exactly one entry for each name of the prompt dictionary: the key
  set of the batch is the set of prompt names and no key occurs twice. This holds on both
  pages. A call that failed is stored as \<open>None\<close> (see C5).
\<close>

theorem invoke_all_prompts_keys:
  "set (keys (prompt_results (fst (invoke_all_prompts gc ps bs st w)))) = set (keys ps) \<and>
   distinct (keys (prompt_results (fst (invoke_all_prompts gc ps bs st w)))) \<and>
   set (keys (prompt_results (fst (pdf_invoke_all_prompts imp gc ps bs st w)))) = set (keys ps) \<and>
   distinct (keys (prompt_results (fst (pdf_invoke_all_prompts imp gc ps bs st w))))"
  by (simp add: prompt_results_invoke prompt_results_pdf_invoke prompts_loop_keys
        prompts_loop_distinct keys_Nil)

text \<open>
  Claim C8. The batch that Invoke All Prompts leaves does not depend on the batch that was
  there before: it is the one built from the empty dictionary, and its keys are the prompt
  names only. This holds on both pages.
\<close>

theorem invoke_all_prompts_replaces_batch:
  "prompt_results (fst (invoke_all_prompts gc ps bs (st\<lparr>prompt_results := old\<rparr>) w)) =
     prompt_results (fst (invoke_all_prompts gc ps bs (st\<lparr>prompt_results := []\<rparr>) w)) \<and>
   set (keys (prompt_results (fst (invoke_all_prompts gc ps bs (st\<lparr>prompt_results := old\<rparr>) w))))
     = set (keys ps) \<and>
   prompt_results (fst (pdf_invoke_all_prompts imp gc ps bs (st\<lparr>prompt_results := old\<rparr>) w)) =
     prompt_results (fst (pdf_invoke_all_prompts imp gc ps bs (st\<lparr>prompt_results := []\<rparr>) w)) \<and>
   set (keys (prompt_results
               (fst (pdf_invoke_all_prompts imp gc ps bs (st\<lparr>prompt_results := old\<rparr>) w))))
     = set (keys ps)"
  by (simp add: prompt_results_invoke prompt_results_pdf_invoke prompts_loop_keys keys_Nil)

text \<open>
  Claim C5. \<open>extract_with_llm\<close> always returns: the content of the first choice when the
  body of its \<open>try\<close> returned, and \<open>None\<close> with the error shown when the body raised
  (obtaining the client, the request itself, or indexing an empty list of choices; on
  the PDF page also the import). This holds on both pages.
\<close>

theorem extract_with_llm_returns:
  "fst (extract_with_llm gc b64 prompt w) =
     (case fst (llm_call gc (llm_request b64 prompt) w) of
        Inr content \<Rightarrow> (content, [])
      | Inl e \<Rightarrow> (PNone, [StError e])) \<and>
   fst (pdf_extract_with_llm imp gc b64 prompt w) =
     (case fst (pdf_llm_call imp gc (pdf_llm_request b64 prompt) w) of
        Inr content \<Rightarrow> (content, [])
      | Inl e \<Rightarrow> (PNone, [StError e]))"
  by (simp add: extract_with_llm_def pdf_extract_with_llm_def split: prod.splits sum.splits)

text \<open>
  Claim C2. When the decoder raises on the edited text, Validate and Update shows the
  error and leaves the whole session state, hence the merged document, as it was.
\<close>

theorem validate_and_update_failure:
  "loads edited_json = Inl e \<Longrightarrow>
   validate_and_update loads edited_json st = (st, [StError e])"
  by (simp add: validate_and_update_def)

theorem validate_and_update_failure_witness:
  "json_loads (str ''{not json'') = Inl JSONDecodeError \<and>
   validate_and_update json_loads (str ''{not json'')
     \<lparr>uploaded_image_bytes = None, uploaded_image_name = None, uploaded_image_path = None,
      prompt_results = [], final_json = PDict [(str ''a'', PInt 1)]\<rparr> =
   (\<lparr>uploaded_image_bytes = None, uploaded_image_name = None, uploaded_image_path = None,
     prompt_results = [], final_json = PDict [(str ''a'', PInt 1)]\<rparr>,
    [StError JSONDecodeError])"
  using loads_not_json
    validate_and_update_failure [of json_loads "str ''{not json''" JSONDecodeError]
  by simp

text \<open>
  Claim C10. When the decoder returns a value for the edited text, whatever its kind
  (an array or a bare number as well as an object), Validate and Update succeeds and
  the merged document is that value.
\<close>

theorem validate_and_update_any_json:
  "loads edited_json = Inr v \<Longrightarrow>
   validate_and_update loads edited_json st = (st\<lparr>final_json := v\<rparr>, [StSuccess])"
  by (simp add: validate_and_update_def)

theorem validate_and_update_any_json_witness:
  "json_loads (str ''[1, 2]'') = Inr (PList [PInt 1, PInt 2]) \<and>
   validate_and_update json_loads (str ''[1, 2]'')
     \<lparr>uploaded_image_bytes = None, uploaded_image_name = None, uploaded_image_path = None,
      prompt_results = [], final_json = PDict [(str ''a'', PInt 1)]\<rparr> =
   (\<lparr>uploaded_image_bytes = None, uploaded_image_name = None, uploaded_image_path = None,
     prompt_results = [], final_json = PList [PInt 1, PInt 2]\<rparr>,
    [StSuccess])"
  using loads_array
    validate_and_update_any_json [of json_loads "str ''[1, 2]''" "PList [PInt 1, PInt 2]"]
  by simp

text \<open>
  Claim C4. For a batch (a dictionary, so with distinct keys) of any results, Combine All
  JSONs returns a dictionary with one entry per entry of the batch, in the same order:
  under each name the decoded value when the body of the \<open>try\<close> returned, and the result
  as it was when it raised. This holds on both pages.
\<close>

theorem combine_all_jsons_complete:
  assumes "distinct (keys (prompt_results st))"
  shows "final_json (fst (combine_all_jsons loads st)) =
           PDict (map (\<lambda>(name, result).
                         (name, case parsed loads result of Inr p \<Rightarrow> p | Inl e \<Rightarrow> result))
                    (prompt_results st)) \<and>
         final_json (fst (pdf_combine_all_jsons loads st)) =
           PDict (map (\<lambda>(name, result).
                         (name, case pdf_parsed loads result of Inr p \<Rightarrow> p | Inl e \<Rightarrow> result))
                    (prompt_results st))"
proof -
  have "fst (combine_entry loads name result) =
        (case parsed loads result of Inr p \<Rightarrow> p | Inl e \<Rightarrow> result)" for name result
    by (simp add: combine_entry_def split: sum.splits)
  then show ?thesis
    using final_json_combine [OF assms, of loads] final_json_pdf_combine [OF assms, of loads]
    by (simp add: pdf_combine_entry_def)
qed


theorem combine_all_jsons_complete_witness:
  "distinct (keys [(str ''total_number_of_holes'', PStr (str ''```json\<newline>{\"holes\": 4}\<newline>```'')),
                   (str ''dowel_holds'', PNone),
                   (str ''drill_dimensions'', PStr (str ''four holes, see drawing''))]) \<and>
   final_json (fst (combine_all_jsons json_loads
     \<lparr>uploaded_image_bytes = None, uploaded_image_name = None, uploaded_image_path = None,
      prompt_results =
        [(str ''total_number_of_holes'', PStr (str ''```json\<newline>{\"holes\": 4}\<newline>```'')),
         (str ''dowel_holds'', PNone),
         (str ''drill_dimensions'', PStr (str ''four holes, see drawing''))],
      final_json = PDict []\<rparr>)) =
   PDict [(str ''total_number_of_holes'', PDict [(str ''holes'', PInt 4)]),
          (str ''dowel_holds'', PNone),
          (str ''drill_dimensions'', PStr (str ''four holes, see drawing''))]"
proof -
  let ?b = "[(str ''total_number_of_holes'', PStr (str ''```json\<newline>{\"holes\": 4}\<newline>```'')),
             (str ''dowel_holds'', PNone),
             (str ''drill_dimensions'', PStr (str ''four holes, see drawing''))]"
  let ?st = "\<lparr>uploaded_image_bytes = None, uploaded_image_name = None,
              uploaded_image_path = None, prompt_results = ?b, final_json = PDict []\<rparr>"
  have d: "distinct (keys ?b)"
    by (simp add: keys_def str_def)
  then have d': "distinct (keys (prompt_results ?st))"
    by simp
  show ?thesis
    using d combine_all_jsons_complete [OF d', of json_loads]
    by (simp add: parsed_def cleaned_scenario_A loads_scenario_A cleaned_scenario_B
          loads_scenario_B)
qed

text \<open>
  Claim C6. A result \<open>None\<close> of the batch is in the merged document under the same name
  as \<open>None\<close>, with every key of the batch kept in order; \<open>None\<close> is not the empty
  object.
\<close>

theorem null_result_kept:
  assumes "distinct (keys (prompt_results st))"
    and "dict_get (prompt_results st) name = Some PNone"
  shows "\<exists>d. final_json (fst (combine_all_jsons loads st)) = PDict d \<and>
             keys d = keys (prompt_results st) \<and>
             dict_get d name = Some PNone \<and> dict_get d name \<noteq> Some (PDict [])"
proof -
  let ?d = "map (\<lambda>(name, result). (name, fst (combine_entry loads name result)))
              (prompt_results st)"
  have "fst (combine_entry loads name PNone) = PNone"
    by (simp add: combine_entry_def parsed_def)
  then have "dict_get ?d name = Some PNone"
    using assms(2) by (simp add: dict_get_def map_of_map_entry)
  then show ?thesis
    using final_json_combine [OF assms(1), of loads] by (simp add: keys_map_entry)
qed

theorem null_result_kept_witness:
  "distinct (keys [(str ''total_number_of_holes'', PStr (str ''{\"holes\": 4}'')),
                   (str ''dowel_holds'', PNone)]) \<and>
   dict_get [(str ''total_number_of_holes'', PStr (str ''{\"holes\": 4}'')),
             (str ''dowel_holds'', PNone)] (str ''dowel_holds'') = Some PNone \<and>
   (\<exists>d. final_json (fst (combine_all_jsons json_loads
           \<lparr>uploaded_image_bytes = None, uploaded_image_name = None,
            uploaded_image_path = None,
            prompt_results = [(str ''total_number_of_holes'', PStr (str ''{\"holes\": 4}'')),
                              (str ''dowel_holds'', PNone)],
            final_json = PDict []\<rparr>)) = PDict d \<and>
        dict_get d (str ''dowel_holds'') = Some PNone)"
proof -
  let ?b = "[(str ''total_number_of_holes'', PStr (str ''{\"holes\": 4}'')),
             (str ''dowel_holds'', PNone)]"
  let ?st = "\<lparr>uploaded_image_bytes = None, uploaded_image_name = None,
              uploaded_image_path = None, prompt_results = ?b, final_json = PDict []\<rparr>"
  have d: "distinct (keys ?b)"
    by (simp add: keys_def str_def)
  have g: "dict_get ?b (str ''dowel_holds'') = Some PNone"
    by (simp add: dict_get_def str_def)
  have "distinct (keys (prompt_results ?st))"
    and "dict_get (prompt_results ?st) (str ''dowel_holds'') = Some PNone"
    using d g by simp_all
  from null_result_kept [OF this, of json_loads] d g
  show ?thesis by auto
qed

text \<open>
  Claim C7, as stated, fails: the response \<open>"5"\<close> (a JSON string) is decoded to the text
  \<open>5\<close>, and a second pass decodes that text to the number 5.
\<close>

theorem renormalize_json_string_counterexample:
  "fst (combine_entry json_loads (str ''dowel_holds'')
         (fst (combine_entry json_loads (str ''dowel_holds'') (PStr (str ''\"5\"''))))) \<noteq>
   fst (combine_entry json_loads (str ''dowel_holds'') (PStr (str ''\"5\"'')))"
  by (simp add: combine_entry_def parsed_def cleaned_quoted_5 loads_quoted_5 cleaned_5 loads_5)

text \<open>
  Claim C7, amended. When the body of the \<open>try\<close> of the first pass did not return a
  text (the result is not a text, or its cleaned text is refused by the decoder, or is
  decoded to a value that is not a JSON string), a second pass changes nothing.
\<close>

theorem renormalize_idempotent:
  assumes "\<And>t. parsed loads result \<noteq> Inr (PStr t)"
  shows "fst (combine_entry loads name (fst (combine_entry loads name result))) =
         fst (combine_entry loads name result)"
proof (cases "parsed loads result")
  case (Inl e)
  then show ?thesis by (simp add: combine_entry_def)
next
  case (Inr p)
  have "\<not> (\<exists>t. p = PStr t)"
    using Inr assms by auto
  then have "parsed loads p = Inr p"
    by (cases p) (auto simp: parsed_def)
  with Inr show ?thesis by (simp add: combine_entry_def)
qed

theorem renormalize_idempotent_witness:
  "parsed json_loads (PStr (str ''```json\<newline>{\"holes\": 4}\<newline>```'')) =
     Inr (PDict [(str ''holes'', PInt 4)]) \<and>
   fst (combine_entry json_loads (str ''dowel_holds'')
         (fst (combine_entry json_loads (str ''dowel_holds'')
                (PStr (str ''```json\<newline>{\"holes\": 4}\<newline>```''))))) =
   fst (combine_entry json_loads (str ''dowel_holds'')
         (PStr (str ''```json\<newline>{\"holes\": 4}\<newline>```'')))"
proof -
  have h: "parsed json_loads (PStr (str ''```json\<newline>{\"holes\": 4}\<newline>```'')) =
             Inr (PDict [(str ''holes'', PInt 4)])"
    by (simp add: parsed_def cleaned_scenario_A loads_scenario_A)
  then have "parsed json_loads (PStr (str ''```json\<newline>{\"holes\": 4}\<newline>```'')) \<noteq>
               Inr (PStr t)" for t
    by simp
  from renormalize_idempotent [of json_loads, OF this] h
  show ?thesis by blast
qed

text \<open>
  Claim C1. The fenced response of scenario A is decoded to the object on the image page;
  the PDF page hands the fenced text to the decoder as it is and keeps the text.
\<close>

theorem fenced_response_both_pages:
  "final_json (fst (combine_all_jsons json_loads
     \<lparr>uploaded_image_bytes = None, uploaded_image_name = None, uploaded_image_path = None,
      prompt_results = [(str ''Prompt 1'', PStr (str ''```json\<newline>{\"holes\": 4}\<newline>```''))],
      final_json = PDict []\<rparr>)) =
   PDict [(str ''Prompt 1'', PDict [(str ''holes'', PInt 4)])] \<and>
   final_json (fst (pdf_combine_all_jsons json_loads
     \<lparr>uploaded_image_bytes = None, uploaded_image_name = None, uploaded_image_path = None,
      prompt_results = [(str ''Prompt 1'', PStr (str ''```json\<newline>{\"holes\": 4}\<newline>```''))],
      final_json = PDict []\<rparr>)) =
   PDict [(str ''Prompt 1'', PStr (str ''```json\<newline>{\"holes\": 4}\<newline>```''))]"
  by (simp add: combine_all_jsons_def pdf_combine_all_jsons_def combine_entry_def
        pdf_combine_entry_def parsed_def pdf_parsed_def cleaned_scenario_A loads_scenario_A
        loads_fenced Let_def)


section \<open>Properties of the rotating-token connection\<close>

lemma connect_kwargs:
  assumes "map_of kwargs (str ''_instance_name'') = Some instance_name"
    and "uuid4 w = (request_id, w1)"
    and "gen request_id [instance_name] w1 = (Inr token, w2)"
  shows "connect uuid4 gen super_connect conninfo kwargs w =
           super_connect conninfo
             (setdefault (str ''sslmode'') (str ''require'')
                (dict_set (str ''password'') token
                   (filter (\<lambda>kv. fst kv \<noteq> str ''_instance_name'') kwargs))) w2"
  using assms by (simp add: connect_def dict_pop_def generate_token_def)

lemma connect_no_credential:
  assumes "map_of kwargs (str ''_instance_name'') = Some instance_name"
    and "uuid4 w = (request_id, w1)"
    and "gen request_id [instance_name] w1 = (Inl e, w2)"
  shows "connect uuid4 gen super_connect conninfo kwargs w = (Inl e, w2)"
  using assms by (simp add: connect_def dict_pop_def generate_token_def)

lemma map_of_dict_set: "map_of (dict_set k v d) = (map_of d)(k \<mapsto> v)"
  by (induction d) auto

lemma map_of_setdefault:
  "map_of (setdefault k v d) k' =
     (if k' = k \<and> map_of d k = None then Some v else map_of d k')"
  by (auto simp: setdefault_def map_add_def split: option.splits)

text \<open>
  Claim C9. A connection that the pool opens draws a request id, asks for a credential
  for that id and the pool's instance, and calls \<open>psycopg\<close> with that token as the
  password and \<open>sslmode=require\<close>; the key \<open>_instance_name\<close> is not passed on.
\<close>

theorem pool_connection_fresh_credential:
  assumes "uuid4 w = (request_id, w1)"
    and "gen request_id [instance_name] w1 = (Inr token, w2)"
  shows "pool_new_connection uuid4 gen super_connect
           (build_pool instance_name host user database) w =
         super_connect
           (str ''host='' @ host @ str '' dbname='' @ database @ str '' user='' @ user)
           [(str ''password'', token), (str ''sslmode'', str ''require'')] w2"
proof -
  have ne: "str ''password'' \<noteq> str ''sslmode''"
    by (simp add: str_def)
  show ?thesis
    using connect_kwargs [of "[(str ''_instance_name'', instance_name)]" instance_name
        uuid4 w request_id w1 gen token w2 super_connect] assms ne
    by (simp add: pool_new_connection_def build_pool_def setdefault_def)
qed

theorem pool_connection_fresh_credential_witness:
  "(\<lambda>n::nat. (str ''request-'' @ [48 + n], Suc n)) 0 = (str ''request-0'', 1) \<and>
   (\<lambda>rid names n. (Inr (str ''token-for-'' @ rid), Suc n)) (str ''request-0'')
      [str ''my-instance''] (1::nat) = (Inr (str ''token-for-request-0'') :: exn + pystr, 2) \<and>
   pool_new_connection (\<lambda>n::nat. (str ''request-'' @ [48 + n], Suc n))
     (\<lambda>rid names n. (Inr (str ''token-for-'' @ rid), Suc n))
     (\<lambda>conninfo kwargs n. (Inr (conninfo, kwargs), n))
     (build_pool (str ''my-instance'') (str ''h'') (str ''u'') (str ''d'')) 0 =
   (Inr (str ''host=h dbname=d user=u'',
         [(str ''password'', str ''token-for-request-0''), (str ''sslmode'', str ''require'')]),
    2)"
proof -
  have a: "(\<lambda>n::nat. (str ''request-'' @ [48 + n], Suc n)) 0 = (str ''request-0'', 1)"
    by (simp add: str_def)
  have b: "(\<lambda>rid names n. (Inr (str ''token-for-'' @ rid), Suc n)) (str ''request-0'')
      [str ''my-instance''] (1::nat) = (Inr (str ''token-for-request-0'') :: exn + pystr, 2)"
    by (simp add: str_def)
  show ?thesis
    using pool_connection_fresh_credential
      [where ?uuid4.0 = "\<lambda>n::nat. (str ''request-'' @ [48 + n], Suc n)"
         and ?gen = "\<lambda>rid names n. (Inr (str ''token-for-'' @ rid), Suc n)"
         and ?super_connect = "\<lambda>conninfo kwargs n. (Inr (conninfo, kwargs), n)"
         and ?w = 0 and ?request_id = "str ''request-0''" and ?w1.0 = 1
         and ?instance_name = "str ''my-instance''"
         and ?token = "str ''token-for-request-0''" and ?w2.0 = 2
         and ?host = "str ''h''" and ?user = "str ''u''" and ?database = "str ''d''"]
    by (simp add: str_def)
qed

end
